theory Spec2Isabelle
  imports Complex_Main "HOL-Library.Sublist"
begin

section \<open>The tool action label (ToolActionLabel.tsx)\<close>

subsection \<open>JavaScript values\<close>

text \<open>
  The component receives \<^verbatim>\<open>args?: string | Record<string, any>\<close> and works on
  \<^verbatim>\<open>parsedArgs: any\<close>. The values it can meet are the JSON-like ones below: what
  \<^verbatim>\<open>JSON.parse\<close> returns, what an object literal of data holds, and \<^verbatim>\<open>undefined\<close>
  for an absent prop or property. An object is the list of its properties in the order
  they were written; a later entry for a key overrides an earlier one. Finite numbers are
  rationals.
\<close>

datatype jsval =
    JUndefined
  | JNull
  | JBool bool
  | JNum rat
  | JStr string
  | JArr "jsval list"
  | JObj "(string \<times> jsval) list"

datatype js_error = TypeError

text \<open>JavaScript truthiness, as used by \<^verbatim>\<open>&&\<close>, \<^verbatim>\<open>||\<close> and \<^verbatim>\<open>? :\<close>.\<close>

fun truthy :: "jsval \<Rightarrow> bool" where
  "truthy JUndefined = False"
| "truthy JNull = False"
| "truthy (JBool b) = b"
| "truthy (JNum n) = (n \<noteq> 0)"
| "truthy (JStr s) = (s \<noteq> [])"
| "truthy (JArr xs) = True"
| "truthy (JObj kvs) = True"

text \<open>\<^verbatim>\<open>a || b\<close> on values.\<close>

definition js_or :: "jsval \<Rightarrow> jsval \<Rightarrow> jsval" where
  "js_or a b = (if truthy a then a else b)"

text \<open>
  Property read \<^verbatim>\<open>v.k\<close> for the four names the component reads (\<^verbatim>\<open>path\<close>,
  \<^verbatim>\<open>command\<close>, \<^verbatim>\<open>old_path\<close>, \<^verbatim>\<open>new_path\<close>), none of which a built-in prototype
  defines: reading from \<^verbatim>\<open>null\<close> or \<^verbatim>\<open>undefined\<close> throws a TypeError, an object
  gives the property's value or \<^verbatim>\<open>undefined\<close>, every other value gives \<^verbatim>\<open>undefined\<close>.
\<close>

fun get_prop :: "jsval \<Rightarrow> string \<Rightarrow> js_error + jsval" where
  "get_prop JUndefined k = Inl TypeError"
| "get_prop JNull k = Inl TypeError"
| "get_prop (JObj kvs) k = Inr (case map_of (rev kvs) k of Some v \<Rightarrow> v | None \<Rightarrow> JUndefined)"
| "get_prop v k = Inr JUndefined"

text \<open>\<^verbatim>\<open>s.split(c)\<close> for a one-character separator: never the empty array.\<close>

fun split_js :: "char \<Rightarrow> string \<Rightarrow> string list" where
  "split_js c [] = [] # []"
| "split_js c (x # xs) =
     (if x = c then [] # split_js c xs
      else (case split_js c xs of w # ws \<Rightarrow> (x # w) # ws | [] \<Rightarrow> [x] # []))"

text \<open>\<^verbatim>\<open>xs.pop()\<close>: the last element, \<^verbatim>\<open>undefined\<close> on the empty array.\<close>

definition pop :: "'a list \<Rightarrow> 'a option" where
  "pop xs = (if xs = [] then None else Some (last xs))"

text \<open>
  The expression \<^verbatim>\<open>v?.split("/").pop() || ""\<close>: \<^verbatim>\<open>?.\<close> stops at \<^verbatim>\<open>null\<close> and
  \<^verbatim>\<open>undefined\<close> only; a string is split; any other value has no \<^verbatim>\<open>split\<close> method,
  and calling it throws a TypeError.
\<close>

fun split_pop :: "jsval \<Rightarrow> js_error + string" where
  "split_pop JUndefined = Inr []"
| "split_pop JNull = Inr []"
| "split_pop (JStr s) = Inr (case pop (split_js (CHR ''/'') s) of Some w \<Rightarrow> w | None \<Rightarrow> [])"
| "split_pop v = Inl TypeError"

subsection \<open>The component\<close>

datatype icon_kind = FileEdit | FilePlus | Eye | Trash2 | FolderEdit

record action_message =
  icon :: "icon_kind \<times> string"
  "text" :: string

datatype element =
    Div string "element list"
  | Svg icon_kind string
  | Span string string

text \<open>
  Lines 13 to 23. \<^verbatim>\<open>JSON.parse\<close> is the runtime's; it is a parameter here, \<open>None\<close>
  standing for a thrown SyntaxError. \<^verbatim>\<open>typeof\<close> is \<^verbatim>\<open>"object"\<close> for objects,
  arrays and \<^verbatim>\<open>null\<close>, and \<^verbatim>\<open>null\<close> is not truthy.
\<close>

fun parse_args :: "(string \<Rightarrow> jsval option) \<Rightarrow> jsval \<Rightarrow> jsval" where
  "parse_args JSON_parse (JStr s) =
     (if s \<noteq> [] then (case JSON_parse s of Some v \<Rightarrow> v | None \<Rightarrow> JObj []) else JObj [])"
| "parse_args JSON_parse (JObj kvs) = JObj kvs"
| "parse_args JSON_parse (JArr xs) = JArr xs"
| "parse_args JSON_parse v = JObj []"

text \<open>The switch of lines 30 to 56 (str\_replace\_editor).\<close>

definition editor_message :: "jsval \<Rightarrow> string \<Rightarrow> action_message" where
  "editor_message command fileName =
     (if command = JStr ''create'' then
        \<lparr>icon = (FilePlus, ''w-3 h-3 text-green-600''),
         text = (if fileName \<noteq> [] then ''Creating '' @ fileName else ''Creating file'')\<rparr>
      else if command = JStr ''str_replace'' then
        \<lparr>icon = (FileEdit, ''w-3 h-3 text-blue-600''),
         text = (if fileName \<noteq> [] then ''Editing '' @ fileName else ''Editing file'')\<rparr>
      else if command = JStr ''insert'' then
        \<lparr>icon = (FileEdit, ''w-3 h-3 text-blue-600''),
         text = (if fileName \<noteq> [] then ''Inserting into '' @ fileName
                 else ''Inserting into file'')\<rparr>
      else if command = JStr ''view'' then
        \<lparr>icon = (Eye, ''w-3 h-3 text-purple-600''),
         text = (if fileName \<noteq> [] then ''Viewing '' @ fileName else ''Viewing file'')\<rparr>
      else
        \<lparr>icon = (FileEdit, ''w-3 h-3 text-neutral-600''),
         text = (if fileName \<noteq> [] then ''Editing '' @ fileName else ''Editing file'')\<rparr>)"

text \<open>Lines 59 to 81 (file\_manager).\<close>

definition manager_message :: "jsval \<Rightarrow> jsval \<Rightarrow> js_error + action_message" where
  "manager_message parsedArgs command =
     (case get_prop parsedArgs ''old_path'' of Inl e \<Rightarrow> Inl e | Inr old_path \<Rightarrow>
      (case get_prop parsedArgs ''path'' of Inl e \<Rightarrow> Inl e | Inr path \<Rightarrow>
       (case split_pop (js_or old_path path) of Inl e \<Rightarrow> Inl e | Inr oldFileName \<Rightarrow>
        (if command = JStr ''delete'' then
           Inr \<lparr>icon = (Trash2, ''w-3 h-3 text-red-600''),
                text = ''Deleting '' @ oldFileName\<rparr>
         else if command = JStr ''rename'' then
           (case get_prop parsedArgs ''new_path'' of Inl e \<Rightarrow> Inl e | Inr new_path \<Rightarrow>
            (case split_pop new_path of Inl e \<Rightarrow> Inl e | Inr newFileName \<Rightarrow>
               Inr \<lparr>icon = (FolderEdit, ''w-3 h-3 text-orange-600''),
                    text = ''Renaming '' @ oldFileName @ '' to '' @ newFileName\<rparr>))
         else
           Inr \<lparr>icon = (FolderEdit, ''w-3 h-3 text-neutral-600''),
                text = (if oldFileName \<noteq> [] then ''Managing '' @ oldFileName
                        else ''Managing files'')\<rparr>))))"

text \<open>Lines 25 to 88: the file name and the command are read before the tool name is looked at.\<close>

definition getActionMessage :: "string \<Rightarrow> jsval \<Rightarrow> js_error + action_message" where
  "getActionMessage toolName parsedArgs =
     (case get_prop parsedArgs ''path'' of Inl e \<Rightarrow> Inl e | Inr path \<Rightarrow>
      (case split_pop path of Inl e \<Rightarrow> Inl e | Inr fileName \<Rightarrow>
       (case get_prop parsedArgs ''command'' of Inl e \<Rightarrow> Inl e | Inr command \<Rightarrow>
        (if toolName = ''str_replace_editor'' then Inr (editor_message command fileName)
         else if toolName = ''file_manager'' then manager_message parsedArgs command
         else Inr \<lparr>icon = (FileEdit, ''w-3 h-3 text-neutral-600''), text = toolName\<rparr>))))"

text \<open>Lines 90 to 97: the rendered element, or the error thrown while rendering.\<close>

definition render :: "action_message \<Rightarrow> element" where
  "render m = Div ''inline-flex items-center gap-2''
                [Svg (fst (icon m)) (snd (icon m)), Span ''text-neutral-700'' (text m)]"

definition ToolActionLabel ::
  "(string \<Rightarrow> jsval option) \<Rightarrow> string \<Rightarrow> jsval \<Rightarrow> js_error + element" where
  "ToolActionLabel JSON_parse toolName args =
     (case getActionMessage toolName (parse_args JSON_parse args) of
        Inl e \<Rightarrow> Inl e
      | Inr m \<Rightarrow> Inr (render m))"

text \<open>What a test's \<^verbatim>\<open>getByText\<close> looks for: the text of the label's span.\<close>

fun label_text :: "js_error + element \<Rightarrow> string option" where
  "label_text (Inr (Div c [Svg k ic, Span sc t])) = Some t"
| "label_text r = None"

subsection \<open>The label as the claims word it\<close>

text \<open>
  The file name as the description of the label has it: the substring of the path after
  its last \<^verbatim>\<open>/\<close> (the whole path when it has none). It is compared below with what the
  component computes by \<^verbatim>\<open>split("/").pop()\<close>.
\<close>

definition after_last_slash :: "string \<Rightarrow> string" where
  "after_last_slash p = rev (takeWhile (\<lambda>c. c \<noteq> CHR ''/'') (rev p))"

text \<open>The final segment of a property value: of a string its last segment, else nothing.\<close>

fun final_segment :: "jsval \<Rightarrow> string" where
  "final_segment (JStr s) = last (split_js (CHR ''/'') s)"
| "final_segment v = []"

text \<open>A property that is absent (\<^verbatim>\<open>undefined\<close>), \<^verbatim>\<open>null\<close> or a string.\<close>

fun string_or_absent :: "jsval \<Rightarrow> bool" where
  "string_or_absent JUndefined = True"
| "string_or_absent JNull = True"
| "string_or_absent (JStr s) = True"
| "string_or_absent v = False"

section \<open>The virtual project (modelled from the specification)\<close>

text \<open>
  The path normalizer, the virtual file store and the import resolver are described by
  sections 3, 4.1, 4.2 and 4.4 of the specification; their source is not part of the
  files this theory embeds, and the definitions of this section are written from those
  sections.
\<close>

subsection \<open>Path normalizer\<close>

text \<open>
  Modelled from the spec: the structural error kinds of section 7, which the normalizer
  and the store operations return.
\<close>

datatype store_error = PathError | NotFoundError | ConflictError

type_synonym path = string

text \<open>Modelled from the spec: rule 2 of the path normalizer, "prepend \<^verbatim>\<open>/\<close> if absent".\<close>

fun prepend_sep :: "string \<Rightarrow> string" where
  "prepend_sep [] = ''/''"
| "prepend_sep (c # cs) = (if c = CHR ''/'' then c # cs else CHR ''/'' # c # cs)"

text \<open>Modelled from the spec: rule 3, "collapse consecutive separators to one".\<close>

fun collapse_seps :: "string \<Rightarrow> string" where
  "collapse_seps [] = []"
| "collapse_seps [c] = [c]"
| "collapse_seps (a # b # cs) =
     (if a = CHR ''/'' \<and> b = CHR ''/'' then collapse_seps (b # cs)
      else a # collapse_seps (b # cs))"

text \<open>
  Modelled from the spec: rule 4, "strip a trailing separator unless the result is exactly
  the root".
\<close>

definition strip_trailing :: "string \<Rightarrow> string" where
  "strip_trailing p = (if 1 < length p \<and> last p = CHR ''/'' then butlast p else p)"

text \<open>
  Modelled from the spec: rule 5, "reject any input containing the pattern \<^verbatim>\<open>..\<close> as a
  segment". The segments of a string are the pieces between its separators.
\<close>

definition has_parent_segment :: "string \<Rightarrow> bool" where
  "has_parent_segment raw = (''..'' \<in> set (split_js (CHR ''/'') raw))"

text \<open>
  Modelled from the spec: the path normalizer \<^verbatim>\<open>normalize(raw) \<rightarrow> Path | PathError\<close>,
  its five rules applied in the order of section 4.1.
\<close>

definition normalize :: "string \<Rightarrow> store_error + path" where
  "normalize raw =
     (if raw = [] then Inl PathError
      else let p = strip_trailing (collapse_seps (prepend_sep raw))
           in if has_parent_segment raw then Inl PathError else Inr p)"

text \<open>Modelled from the spec: a string "contains no duplicate separators" (section 3).\<close>

fun no_double_sep :: "string \<Rightarrow> bool" where
  "no_double_sep (a # b # cs) = (\<not> (a = CHR ''/'' \<and> b = CHR ''/'') \<and> no_double_sep (b # cs))"
| "no_double_sep cs = True"

text \<open>
  Modelled from the spec: the invariant of a Path (section 3): it starts with \<^verbatim>\<open>/\<close>, has
  no duplicate separators, and has no trailing separator unless it is the root.
\<close>

definition is_path :: "string \<Rightarrow> bool" where
  "is_path p = (p \<noteq> [] \<and> hd p = CHR ''/'' \<and> no_double_sep p \<and>
                (p = ''/'' \<or> last p \<noteq> CHR ''/''))"

text \<open>
  Modelled from the spec: a Path read as the sequence of its segments, the non-empty
  pieces between separators; the root has none.
\<close>

definition segments :: "string \<Rightarrow> string list" where
  "segments p = filter (\<lambda>w. w \<noteq> []) (split_js (CHR ''/'') p)"

text \<open>Modelled from the spec: the Path that a sequence of segments spells.\<close>

definition join_segments :: "string list \<Rightarrow> path" where
  "join_segments ws = (if ws = [] then ''/'' else concat (map (\<lambda>w. CHR ''/'' # w) ws))"

text \<open>
  Modelled from the spec: the segments of a Path are non-empty and hold no separator.
\<close>

definition good_segments :: "string list \<Rightarrow> bool" where
  "good_segments ws = (\<forall>w \<in> set ws. w \<noteq> [] \<and> CHR ''/'' \<notin> set w)"

subsection \<open>Virtual file store\<close>

text \<open>
  Modelled from the spec: a Node is a File holding its text content or a Directory
  (section 3). The store is a collection of nodes keyed by normalized path (sections 3
  and 9), here an association list; a directory's child names are the keys directly below
  it, and the last-modified marker, which no operation of section 4.2 returns, is left out.
\<close>

datatype node = File string | Directory

type_synonym store = "(path \<times> node) list"

text \<open>Modelled from the spec: the kind of a node, the tag of the variant (section 3).\<close>

datatype kind = FileKind | DirectoryKind

text \<open>Modelled from the spec: "created empty (root directory only)".\<close>

definition empty_store :: store where
  "empty_store = [(''/'', Directory)]"

text \<open>
  Modelled from the spec: the node kind observed at a path (section 8, "every path's
  content and kind").
\<close>

definition kind_at :: "store \<Rightarrow> path \<Rightarrow> kind option" where
  "kind_at s p = (case map_of s p of None \<Rightarrow> None
                  | Some (File c) \<Rightarrow> Some FileKind
                  | Some Directory \<Rightarrow> Some DirectoryKind)"

text \<open>
  Modelled from the spec: the content observed at a path, that of the File node there,
  if any.
\<close>

definition content_at :: "store \<Rightarrow> path \<Rightarrow> string option" where
  "content_at s p = (case map_of s p of Some (File c) \<Rightarrow> Some c | _ \<Rightarrow> None)"

text \<open>
  Modelled from the spec: the ancestor directories "along the path", from the root down to
  the parent; the root has none.
\<close>

definition ancestors :: "path \<Rightarrow> path list" where
  "ancestors p = map join_segments (butlast (prefixes (segments p)))"

text \<open>Modelled from the spec: "creates every missing ancestor Directory node".\<close>

definition make_dir :: "path \<Rightarrow> store \<Rightarrow> store" where
  "make_dir d s = (if map_of s d = None then s @ [(d, Directory)] else s)"

text \<open>
  Modelled from the spec: the same for every ancestor along a path, from the root down.
\<close>

definition make_dirs :: "path list \<Rightarrow> store \<Rightarrow> store" where
  "make_dirs ds s = fold make_dir ds s"

text \<open>
  Modelled from the spec: "creates a File node if absent, overwrites content if present":
  the node at a key is added or replaced, and no two nodes share a path.
\<close>

definition put_node :: "path \<Rightarrow> node \<Rightarrow> store \<Rightarrow> store" where
  "put_node p n s = (if map_of s p = None then s @ [(p, n)]
                     else map (\<lambda>(q, m). if q = p then (q, n) else (q, m)) s)"

text \<open>
  Modelled from the spec: \<^verbatim>\<open>write(path, content)\<close> "creates a File node if absent,
  overwrites content if present; as a side effect, creates every missing ancestor
  Directory node along the path. Fails with ConflictError if an ancestor segment already
  exists as a File", and "each [operation] re-normalizes its input path argument, failing
  with PathError on malformed input". A path that denotes a Directory cannot become a
  File ("a path's node kind is stable for its lifetime"): that is a collision with an
  existing incompatible node, a ConflictError.
\<close>

definition write_file :: "store \<Rightarrow> string \<Rightarrow> string \<Rightarrow> store_error + store" where
  "write_file s raw content =
     (case normalize raw of
        Inl e \<Rightarrow> Inl e
      | Inr p \<Rightarrow>
          if list_ex (\<lambda>a. kind_at s a = Some FileKind) (ancestors p) then Inl ConflictError
          else if kind_at s p = Some DirectoryKind then Inl ConflictError
          else Inr (put_node p (File content) (make_dirs (ancestors p) s)))"

text \<open>
  Modelled from the spec: \<^verbatim>\<open>read(path)\<close> "returns File content; fails with
  NotFoundError if absent or if the path denotes a Directory".
\<close>

definition read_file :: "store \<Rightarrow> string \<Rightarrow> store_error + string" where
  "read_file s raw =
     (case normalize raw of
        Inl e \<Rightarrow> Inl e
      | Inr p \<Rightarrow> (case content_at s p of Some c \<Rightarrow> Inr c | None \<Rightarrow> Inl NotFoundError))"

text \<open>
  Modelled from the spec: the invariants of a store (section 3): no two nodes share a
  path, the root exists and is a directory, and every node's ancestors exist as
  directories.
\<close>

definition wf_store :: "store \<Rightarrow> bool" where
  "wf_store s = (distinct (map fst s) \<and> map_of s ''/'' = Some Directory \<and>
                 (\<forall>(p, n) \<in> set s. \<forall>a \<in> set (ancestors p). map_of s a = Some Directory))"

subsection \<open>Import resolver\<close>

text \<open>
  Modelled from the spec: the resolver is given "a configured alias prefix (identifying
  project-root imports)" (section 4.4); the prefix is the parameter \<open>alias\<close> of the
  definitions below. An aliased specifier is "rewritten to a store-relative path": the
  prefix is replaced by the root. (The generation prompt,
  \<^verbatim>\<open>src/lib/prompts/generation.tsx\<close> lines 13 and 14, tells the model to use the alias
  \<^verbatim>\<open>@/\<close> and gives the file \<^verbatim>\<open>/components/Calculator.jsx\<close>, imported as
  \<^verbatim>\<open>@/components/Calculator\<close>, as its example.)
\<close>

definition rewrite_alias :: "string \<Rightarrow> string \<Rightarrow> string" where
  "rewrite_alias alias specifier = CHR ''/'' # drop (length alias) specifier"

text \<open>
  Modelled from the spec: a resolution target is "one of {in-memory module handle, network
  module address, unresolved-placeholder}" (section 3). A handle is opaque outside the
  handle manager, one per compiled module; it is named here by the module's path.
\<close>

datatype target = ModuleHandle path | NetworkAddress string | Placeholder

text \<open>
  Modelled from the spec: the local search "by trying, in order: the literal path; the
  literal path with each of a fixed set of recognized source extensions appended; the
  literal path treated as a directory with an index file under the same extension search.
  First match wins. If no match is found, the specifier resolves to an
  unresolved-placeholder". The spec does not list the extensions: they are the parameter
  \<open>exts\<close>.
\<close>

definition candidates :: "string list \<Rightarrow> string \<Rightarrow> string list" where
  "candidates exts p = p # map (\<lambda>e. p @ e) exts @ map (\<lambda>e. p @ ''/index'' @ e) exts"

text \<open>
  Modelled from the spec: a candidate matches when, normalized as every path argument
  is, it denotes a File of the store.
\<close>

definition lookup_file :: "store \<Rightarrow> string \<Rightarrow> path option" where
  "lookup_file s candidate =
     (case normalize candidate of
        Inl e \<Rightarrow> None
      | Inr q \<Rightarrow> if kind_at s q = Some FileKind then Some q else None)"

text \<open>Modelled from the spec: "First match wins".\<close>

fun first_match :: "store \<Rightarrow> string list \<Rightarrow> path option" where
  "first_match s [] = None"
| "first_match s (c # cs) =
     (case lookup_file s c of Some q \<Rightarrow> Some q | None \<Rightarrow> first_match s cs)"

text \<open>
  Modelled from the spec: the local resolution of a literal path, to the handle of the
  first matching module or to the placeholder.
\<close>

definition resolve_local :: "store \<Rightarrow> string list \<Rightarrow> string \<Rightarrow> target" where
  "resolve_local s exts p =
     (case first_match s (candidates exts p) of
        Some q \<Rightarrow> ModuleHandle q
      | None \<Rightarrow> Placeholder)"

text \<open>
  Modelled from the spec: the classification of a specifier "in priority order":
  stylesheet (a recognized stylesheet extension is a suffix of the specifier), aliased
  (the specifier starts with the configured prefix), relative or local, bare (anything
  else). The spec lists neither the stylesheet extensions nor what tells a relative
  specifier from a bare one: they are the parameters \<open>style_exts\<close> and
  \<open>is_relative\<close>.
\<close>

datatype specifier_kind = Stylesheet | Aliased | Relative | Bare

text \<open>
  Modelled from the spec: the classifier, the first of the four kinds that applies.
\<close>

definition classify ::
  "string \<Rightarrow> string list \<Rightarrow> (string \<Rightarrow> bool) \<Rightarrow> string \<Rightarrow> specifier_kind" where
  "classify alias style_exts is_relative specifier =
     (if list_ex (\<lambda>e. suffix e specifier) style_exts then Stylesheet
      else if prefix alias specifier then Aliased
      else if is_relative specifier then Relative
      else Bare)"

text \<open>
  Modelled from the spec: the resolution of one specifier against the state of the store;
  a stylesheet specifier is "excluded from the module Resolution Map" (\<open>None\<close>), a bare
  specifier goes to a network address without local validation.
\<close>

definition resolve ::
  "string \<Rightarrow> string list \<Rightarrow> (string \<Rightarrow> bool) \<Rightarrow> string list \<Rightarrow> store \<Rightarrow> string
     \<Rightarrow> target option" where
  "resolve alias style_exts is_relative exts s specifier =
     (case classify alias style_exts is_relative specifier of
        Stylesheet \<Rightarrow> None
      | Aliased \<Rightarrow> Some (resolve_local s exts (rewrite_alias alias specifier))
      | Relative \<Rightarrow> Some (resolve_local s exts specifier)
      | Bare \<Rightarrow> Some (NetworkAddress specifier))"

section \<open>Properties of the tool action label\<close>

subsection \<open>Splitting a path\<close>

lemma split_js_nonempty: "split_js c s \<noteq> []"
  by (induction s) (auto split: list.splits)

lemma split_js_no_sep: "c \<notin> set s \<Longrightarrow> split_js c s = [s]"
  by (induction s) auto

lemma length_split_js: "length (split_js c s) = Suc (length (filter (\<lambda>x. x = c) s))"
  by (induction s) (auto split: list.splits)

lemma last_split_js_Cons:
  assumes "c \<in> set xs"
  shows "last (split_js c (x # xs)) = last (split_js c xs)"
proof -
  have "filter (\<lambda>x. x = c) xs \<noteq> []"
    using assms by (simp add: filter_empty_conv)
  then have "2 \<le> length (split_js c xs)"
    by (cases "filter (\<lambda>x. x = c) xs") (simp_all add: length_split_js)
  then obtain w v ws where "split_js c xs = w # v # ws"
    by (cases "split_js c xs"; cases "tl (split_js c xs)") auto
  then show ?thesis by simp
qed

text \<open>\<^verbatim>\<open>split(c).pop()\<close> is the part of the string after the last separator.\<close>

lemma last_split_js: "last (split_js c s) = rev (takeWhile (\<lambda>x. x \<noteq> c) (rev s))"
proof (induction s)
  case Nil
  show ?case by simp
next
  case (Cons x xs)
  show ?case
  proof (cases "c \<in> set xs")
    case True
    have "last (split_js c (x # xs)) = last (split_js c xs)"
      by (rule last_split_js_Cons [OF True])
    moreover have "takeWhile (\<lambda>x. x \<noteq> c) (rev (x # xs)) = takeWhile (\<lambda>x. x \<noteq> c) (rev xs)"
      using True by simp
    ultimately show ?thesis using Cons.IH by simp
  next
    case False
    then have "takeWhile (\<lambda>x. x \<noteq> c) (rev xs @ [x]) = rev xs @ takeWhile (\<lambda>x. x \<noteq> c) [x]"
      by (intro takeWhile_append2) auto
    with False show ?thesis by (simp add: split_js_no_sep)
  qed
qed

lemma split_pop_string_or_absent:
  "string_or_absent v \<Longrightarrow> split_pop v = Inr (final_segment v)"
  by (cases v) (simp_all add: pop_def split_js_nonempty)

lemma get_prop_defined: "get_prop v k = Inr x \<Longrightarrow> \<exists>y. get_prop v k' = Inr y"
  by (cases v) simp_all

lemma editor_message_text_nonempty: "text (editor_message command fileName) \<noteq> []"
  by (simp add: editor_message_def)

subsection \<open>str\_replace\_editor\<close>

text \<open>
  Claim C1. For the tool \<^verbatim>\<open>str_replace_editor\<close>, whenever the \<^verbatim>\<open>path\<close> of the parsed
  arguments is a string with a non-empty final segment, the label reads
  "Creating", "Editing", "Inserting into" or "Viewing" followed by that segment for the
  commands \<^verbatim>\<open>create\<close>, \<^verbatim>\<open>str_replace\<close>, \<^verbatim>\<open>insert\<close> and \<^verbatim>\<open>view\<close>, and
  "Editing" followed by the segment for every other command value (an absent command
  included); the labels of the four commands are pairwise distinct.
\<close>

theorem editor_label_by_command:
  assumes "get_prop (parse_args JSON_parse args) ''path'' = Inr (JStr p)"
    and "last (split_js (CHR ''/'') p) \<noteq> []"
    and "get_prop (parse_args JSON_parse args) ''command'' = Inr command"
  shows "label_text (ToolActionLabel JSON_parse ''str_replace_editor'' args) =
           Some ((if command = JStr ''create'' then ''Creating ''
                  else if command = JStr ''str_replace'' then ''Editing ''
                  else if command = JStr ''insert'' then ''Inserting into ''
                  else if command = JStr ''view'' then ''Viewing ''
                  else ''Editing '') @ last (split_js (CHR ''/'') p))
         \<and> distinct (map (\<lambda>c. label_text (ToolActionLabel JSON_parse ''str_replace_editor''
                (JObj [(''command'', JStr c), (''path'', JStr p)])))
              [''create'', ''str_replace'', ''insert'', ''view''])"
  using assms
  by (simp add: ToolActionLabel_def getActionMessage_def editor_message_def render_def
      pop_def split_js_nonempty)

theorem editor_label_by_command_witness:
  "label_text (ToolActionLabel (\<lambda>s. None) ''str_replace_editor''
      (JObj [(''command'', JStr ''insert''), (''path'', JStr ''/components/Header.tsx'')]))
   = Some ''Inserting into Header.tsx''"
  using editor_label_by_command [of "\<lambda>s. None"
      "JObj [(''command'', JStr ''insert''), (''path'', JStr ''/components/Header.tsx'')]"
      "''/components/Header.tsx''" "JStr ''insert''"]
  by simp

text \<open>
  Claim C7. For the tool \<^verbatim>\<open>str_replace_editor\<close> and parsed arguments whose
  \<^verbatim>\<open>path\<close> is absent, \<^verbatim>\<open>null\<close> or a string, the label is one of the four verbs
  followed by the file name, and the file name is exactly the substring of the path after
  its last \<^verbatim>\<open>/\<close>; when the path is absent or that substring is empty the label says
  "file" instead. A path with a leading \<^verbatim>\<open>/\<close> and the same path without it give the
  same label.
\<close>

theorem editor_file_name:
  "(get_prop (parse_args JSON_parse args) ''path'' = Inr path \<and> string_or_absent path \<longrightarrow>
      (\<exists>verb. verb \<in> set [''Creating '', ''Editing '', ''Inserting into '', ''Viewing ''] \<and>
         label_text (ToolActionLabel JSON_parse ''str_replace_editor'' args) =
           Some (verb @ (case path of
                           JStr p \<Rightarrow> if after_last_slash p = [] then ''file'' else after_last_slash p
                         | _ \<Rightarrow> ''file''))))
   \<and> ToolActionLabel JSON_parse ''str_replace_editor''
        (JObj [(''command'', command), (''path'', JStr (CHR ''/'' # p))]) =
      ToolActionLabel JSON_parse ''str_replace_editor''
        (JObj [(''command'', command), (''path'', JStr p)])"
proof (intro conjI impI)
  assume h: "get_prop (parse_args JSON_parse args) ''path'' = Inr path \<and> string_or_absent path"
  have b: "split_pop path = Inr (final_segment path)"
    using h by (simp add: split_pop_string_or_absent)
  have c: "final_segment path = (case path of JStr p \<Rightarrow> after_last_slash p | _ \<Rightarrow> [])"
    by (cases path) (simp_all add: last_split_js after_last_slash_def)
  obtain cmd where d: "get_prop (parse_args JSON_parse args) ''command'' = Inr cmd"
    using h get_prop_defined by blast
  show "\<exists>verb. verb \<in> set [''Creating '', ''Editing '', ''Inserting into '', ''Viewing ''] \<and>
         label_text (ToolActionLabel JSON_parse ''str_replace_editor'' args) =
           Some (verb @ (case path of
                           JStr p \<Rightarrow> if after_last_slash p = [] then ''file'' else after_last_slash p
                         | _ \<Rightarrow> ''file''))"
    using h b c d
    by (cases path)
      (simp_all add: ToolActionLabel_def getActionMessage_def editor_message_def render_def)
next
  have "last (split_js (CHR ''/'') (CHR ''/'' # p)) = last (split_js (CHR ''/'') p)"
    by (simp add: split_js_nonempty)
  then show "ToolActionLabel JSON_parse ''str_replace_editor''
        (JObj [(''command'', command), (''path'', JStr (CHR ''/'' # p))]) =
      ToolActionLabel JSON_parse ''str_replace_editor''
        (JObj [(''command'', command), (''path'', JStr p)])"
    by (simp add: ToolActionLabel_def getActionMessage_def pop_def split_js_nonempty)
qed

theorem editor_file_name_witness:
  "get_prop (parse_args (\<lambda>s. None) (JObj [(''command'', JStr ''create''),
       (''path'', JStr ''components/Button.jsx'')])) ''path'' = Inr (JStr ''components/Button.jsx'')
   \<and> string_or_absent (JStr ''components/Button.jsx'')
   \<and> after_last_slash ''components/Button.jsx'' = ''Button.jsx''
   \<and> (\<exists>verb. verb \<in> set [''Creating '', ''Editing '', ''Inserting into '', ''Viewing ''] \<and>
         label_text (ToolActionLabel (\<lambda>s. None) ''str_replace_editor''
           (JObj [(''command'', JStr ''create''), (''path'', JStr ''components/Button.jsx'')])) =
         Some (verb @ ''Button.jsx''))"
  using editor_file_name [of "\<lambda>s. None"
      "JObj [(''command'', JStr ''create''), (''path'', JStr ''components/Button.jsx'')]"
      "JStr ''components/Button.jsx''"]
  by (simp add: after_last_slash_def)

subsection \<open>file\_manager\<close>

text \<open>
  Claim C2, as stated, at two inputs. With both \<^verbatim>\<open>old_path\<close> and \<^verbatim>\<open>path\<close> given, a
  \<^verbatim>\<open>delete\<close> is labelled with the final segment of \<^verbatim>\<open>old_path\<close>, not of \<^verbatim>\<open>path\<close>;
  and with a path given whose final segment is empty, another command is labelled
  "Managing files".
\<close>

theorem manager_label_counterexample:
  "label_text (ToolActionLabel (\<lambda>s. None) ''file_manager''
      (JObj [(''command'', JStr ''delete''), (''path'', JStr ''/b/y.js''),
             (''old_path'', JStr ''/a/x.js'')])) = Some ''Deleting x.js''
   \<and> label_text (ToolActionLabel (\<lambda>s. None) ''file_manager''
      (JObj [(''command'', JStr ''list''), (''path'', JStr ''/a/'')])) = Some ''Managing files''"
  by (simp add: ToolActionLabel_def getActionMessage_def manager_message_def render_def
      pop_def js_or_def)

text \<open>
  Claim C2, amended. For the tool \<^verbatim>\<open>file_manager\<close> and every args whose parsed value
  is neither null nor undefined, whose \<^verbatim>\<open>path\<close> is absent, \<^verbatim>\<open>null\<close> or a string, whose \<^verbatim>\<open>old_path\<close>
  is a string or a falsy value (absent, \<^verbatim>\<open>null\<close>, \<^verbatim>\<open>false\<close>, \<^verbatim>\<open>0\<close>) and, for the
  command \<^verbatim>\<open>rename\<close> only, whose \<^verbatim>\<open>new_path\<close> is absent, \<^verbatim>\<open>null\<close> or a string: let
  the old name be the final segment of \<^verbatim>\<open>old_path\<close> when that is a non-empty string and
  of \<^verbatim>\<open>path\<close> otherwise (empty when neither is given). Then \<^verbatim>\<open>delete\<close> renders
  "Deleting" and the old name, \<^verbatim>\<open>rename\<close> renders "Renaming", the old name, "to" and the
  final segment of \<^verbatim>\<open>new_path\<close>, and every other command renders "Managing" and the
  old name when that is non-empty and "Managing files" otherwise.
\<close>

theorem manager_label_by_command:
  assumes "get_prop (parse_args JSON_parse args) ''command'' = Inr command"
    and "get_prop (parse_args JSON_parse args) ''old_path'' = Inr old_path"
    and "get_prop (parse_args JSON_parse args) ''path'' = Inr path"
    and "get_prop (parse_args JSON_parse args) ''new_path'' = Inr new_path"
    and "string_or_absent path"
    and "truthy old_path \<longrightarrow> string_or_absent old_path"
    and "command = JStr ''rename'' \<longrightarrow> string_or_absent new_path"
  shows "label_text (ToolActionLabel JSON_parse ''file_manager'' args) =
           Some (if command = JStr ''delete'' then
                   ''Deleting '' @ final_segment (if truthy old_path then old_path else path)
                 else if command = JStr ''rename'' then
                   ''Renaming '' @ final_segment (if truthy old_path then old_path else path)
                     @ '' to '' @ final_segment new_path
                 else if final_segment (if truthy old_path then old_path else path) \<noteq> [] then
                   ''Managing '' @ final_segment (if truthy old_path then old_path else path)
                 else ''Managing files'')"
proof -
  have "string_or_absent (js_or old_path path)"
    using assms(5,6) by (simp add: js_or_def)
  then have a: "split_pop (js_or old_path path) = Inr (final_segment (js_or old_path path))"
    by (rule split_pop_string_or_absent)
  have b: "split_pop path = Inr (final_segment path)"
    using assms(5) by (rule split_pop_string_or_absent)
  have c: "command = JStr ''rename'' \<Longrightarrow> split_pop new_path = Inr (final_segment new_path)"
    using assms(7) by (simp add: split_pop_string_or_absent)
  have d: "js_or old_path path = (if truthy old_path then old_path else path)"
    by (simp add: js_or_def)
  show ?thesis
    using assms(1-4) a b c
    by (simp add: ToolActionLabel_def getActionMessage_def manager_message_def render_def d)
qed

theorem manager_label_by_command_witness:
  "truthy (JBool False) = False
   \<and> label_text (ToolActionLabel (\<lambda>s. None) ''file_manager''
      (JObj [(''command'', JStr ''delete''), (''old_path'', JBool False),
             (''path'', JStr ''/components/OldComponent.jsx''), (''new_path'', JNum 3)]))
     = Some ''Deleting OldComponent.jsx''
   \<and> label_text (ToolActionLabel (\<lambda>s. None) ''file_manager''
      (JObj [(''command'', JStr ''rename''), (''old_path'', JStr ''/components/Button.jsx''),
             (''new_path'', JStr ''/components/ActionButton.jsx'')]))
     = Some ''Renaming Button.jsx to ActionButton.jsx''"
  using manager_label_by_command [of "\<lambda>s. None"
      "JObj [(''command'', JStr ''delete''), (''old_path'', JBool False),
             (''path'', JStr ''/components/OldComponent.jsx''), (''new_path'', JNum 3)]"
      "JStr ''delete''" "JBool False" "JStr ''/components/OldComponent.jsx''" "JNum 3"]
    manager_label_by_command [of "\<lambda>s. None"
      "JObj [(''command'', JStr ''rename''), (''old_path'', JStr ''/components/Button.jsx''),
             (''new_path'', JStr ''/components/ActionButton.jsx'')]"
      "JStr ''rename''" "JStr ''/components/Button.jsx''" JUndefined
      "JStr ''/components/ActionButton.jsx''"]
  by simp

subsection \<open>Other tools\<close>

text \<open>
  Claim C6, as stated, at two inputs: the file name is computed before the tool name is
  looked at, so a \<^verbatim>\<open>path\<close> that is a number makes the component throw for an unknown
  tool as well, and nothing is rendered; and the args string \<^verbatim>\<open>null\<close>, which
  \<^verbatim>\<open>JSON.parse\<close> turns into \<^verbatim>\<open>null\<close>, makes the read of \<^verbatim>\<open>parsedArgs.path\<close> throw.
\<close>

theorem unknown_tool_counterexample:
  "ToolActionLabel (\<lambda>s. None) ''unknown_tool''
      (JObj [(''command'', JStr ''test''), (''path'', JNum 5)]) = Inl TypeError
   \<and> label_text (ToolActionLabel (\<lambda>s. None) ''unknown_tool''
      (JObj [(''command'', JStr ''test''), (''path'', JNum 5)])) \<noteq> Some ''unknown_tool''
   \<and> ToolActionLabel (\<lambda>s. if s = ''null'' then Some JNull else None) ''unknown_tool''
      (JStr ''null'') = Inl TypeError"
  by (simp add: ToolActionLabel_def getActionMessage_def)

text \<open>
  Claim C6, amended. For every tool name other than \<^verbatim>\<open>str_replace_editor\<close> and
  \<^verbatim>\<open>file_manager\<close>, and every args whose parsed value is neither null nor undefined and has a
  \<^verbatim>\<open>path\<close> that is absent, \<^verbatim>\<open>null\<close> or a string, the component renders the neutral edit icon
  and the tool name itself, verbatim, whatever else the args hold.
\<close>

theorem unknown_tool_label:
  assumes "toolName \<noteq> ''str_replace_editor''" and "toolName \<noteq> ''file_manager''"
    and "get_prop (parse_args JSON_parse args) ''path'' = Inr path"
    and "string_or_absent path"
  shows "ToolActionLabel JSON_parse toolName args =
           Inr (Div ''inline-flex items-center gap-2''
                  [Svg FileEdit ''w-3 h-3 text-neutral-600'', Span ''text-neutral-700'' toolName])"
proof -
  have "split_pop path = Inr (final_segment path)"
    using assms(4) by (rule split_pop_string_or_absent)
  moreover have "\<exists>c. get_prop (parse_args JSON_parse args) ''command'' = Inr c"
    using assms(3) by (cases "parse_args JSON_parse args") simp_all
  ultimately show ?thesis
    using assms(1-3)
    by (auto simp add: ToolActionLabel_def getActionMessage_def render_def)
qed

theorem unknown_tool_label_witness:
  "ToolActionLabel
      (\<lambda>s. if s = ''ARGS'' then Some (JObj [(''command'', JStr ''test''),
                                             (''path'', JStr ''/file.js'')]) else None)
      ''unknown_tool'' (JStr ''ARGS'') =
     Inr (Div ''inline-flex items-center gap-2''
            [Svg FileEdit ''w-3 h-3 text-neutral-600'', Span ''text-neutral-700'' ''unknown_tool''])"
  using unknown_tool_label [of "''unknown_tool''"
      "\<lambda>s. if s = ''ARGS'' then Some (JObj [(''command'', JStr ''test''),
                                              (''path'', JStr ''/file.js'')]) else None"
      "JStr ''ARGS''" "JStr ''/file.js''"]
  by simp

subsection \<open>Degradation\<close>

text \<open>
  Claim C3, as stated, at three inputs: an object whose \<^verbatim>\<open>path\<close> is an array makes the
  component throw a TypeError (an array has no \<^verbatim>\<open>split\<close>); the args string
  \<^verbatim>\<open>null\<close>, which \<^verbatim>\<open>JSON.parse\<close> turns into \<^verbatim>\<open>null\<close>, makes the read of
  \<^verbatim>\<open>parsedArgs.path\<close> throw; and the empty tool name renders an empty text.
\<close>

theorem label_never_throws_counterexample:
  "ToolActionLabel (\<lambda>s. None) ''str_replace_editor''
      (JObj [(''command'', JStr ''view''), (''path'', JArr [JStr ''/App.jsx''])]) = Inl TypeError
   \<and> ToolActionLabel (\<lambda>s. if s = ''null'' then Some JNull else None) ''str_replace_editor''
      (JStr ''null'') = Inl TypeError
   \<and> label_text (ToolActionLabel (\<lambda>s. None) [] JUndefined) = Some []"
  by (simp add: ToolActionLabel_def getActionMessage_def render_def pop_def)

text \<open>
  Claim C3, amended. A JSON parse failure is absorbed into the empty argument object.
  For args that are absent, the empty string or a string that does not parse, the
  component renders "Editing file" for \<^verbatim>\<open>str_replace_editor\<close>, "Managing files" for
  \<^verbatim>\<open>file_manager\<close> and the tool name itself for any other tool. For every tool name and
  every args whose parsed value is neither null nor undefined and has a \<^verbatim>\<open>path\<close>
  that is absent,
  \<^verbatim>\<open>null\<close> or a string, and, for the tool \<^verbatim>\<open>file_manager\<close> only, an \<^verbatim>\<open>old_path\<close>
  that is a string or a falsy value and, for its command \<^verbatim>\<open>rename\<close> only, a
  \<^verbatim>\<open>new_path\<close> that is absent, \<^verbatim>\<open>null\<close> or a string, the component does not throw and
  renders an icon together with a text, and the text is non-empty whenever the tool name
  is.
\<close>

theorem label_degrades_gracefully:
  "(JSON_parse s = None \<longrightarrow>
      ToolActionLabel JSON_parse toolName (JStr s) = ToolActionLabel JSON_parse toolName (JObj []))
   \<and> (args = JUndefined \<or> args = JStr [] \<or> (\<exists>s. args = JStr s \<and> JSON_parse s = None) \<longrightarrow>
      label_text (ToolActionLabel JSON_parse toolName args) =
        Some (if toolName = ''str_replace_editor'' then ''Editing file''
              else if toolName = ''file_manager'' then ''Managing files''
              else toolName))
   \<and> (parse_args JSON_parse args \<noteq> JNull \<and> parse_args JSON_parse args \<noteq> JUndefined \<and>
       get_prop (parse_args JSON_parse args) ''path'' = Inr path \<and> string_or_absent path \<and>
       get_prop (parse_args JSON_parse args) ''command'' = Inr command \<and>
       get_prop (parse_args JSON_parse args) ''old_path'' = Inr old_path \<and>
       get_prop (parse_args JSON_parse args) ''new_path'' = Inr new_path \<and>
       (toolName = ''file_manager'' \<longrightarrow>
          (truthy old_path \<longrightarrow> string_or_absent old_path) \<and>
          (command = JStr ''rename'' \<longrightarrow> string_or_absent new_path)) \<longrightarrow>
      (\<exists>k c t. ToolActionLabel JSON_parse toolName args =
           Inr (Div ''inline-flex items-center gap-2'' [Svg k c, Span ''text-neutral-700'' t])
         \<and> (toolName \<noteq> [] \<longrightarrow> t \<noteq> [])))"
proof (intro conjI impI)
  assume "JSON_parse s = None"
  then show "ToolActionLabel JSON_parse toolName (JStr s) =
      ToolActionLabel JSON_parse toolName (JObj [])"
    by (simp add: ToolActionLabel_def)
next
  assume "args = JUndefined \<or> args = JStr [] \<or> (\<exists>s. args = JStr s \<and> JSON_parse s = None)"
  then have "parse_args JSON_parse args = JObj []" by auto
  then show "label_text (ToolActionLabel JSON_parse toolName args) =
        Some (if toolName = ''str_replace_editor'' then ''Editing file''
              else if toolName = ''file_manager'' then ''Managing files''
              else toolName)"
    by (simp add: ToolActionLabel_def getActionMessage_def editor_message_def
        manager_message_def render_def js_or_def)
next
  assume h: "parse_args JSON_parse args \<noteq> JNull \<and> parse_args JSON_parse args \<noteq> JUndefined \<and>
       get_prop (parse_args JSON_parse args) ''path'' = Inr path \<and> string_or_absent path \<and>
       get_prop (parse_args JSON_parse args) ''command'' = Inr command \<and>
       get_prop (parse_args JSON_parse args) ''old_path'' = Inr old_path \<and>
       get_prop (parse_args JSON_parse args) ''new_path'' = Inr new_path \<and>
       (toolName = ''file_manager'' \<longrightarrow>
          (truthy old_path \<longrightarrow> string_or_absent old_path) \<and>
          (command = JStr ''rename'' \<longrightarrow> string_or_absent new_path))"
  have b: "split_pop path = Inr (final_segment path)"
    using h by (simp add: split_pop_string_or_absent)
  show "\<exists>k c t. ToolActionLabel JSON_parse toolName args =
           Inr (Div ''inline-flex items-center gap-2'' [Svg k c, Span ''text-neutral-700'' t])
         \<and> (toolName \<noteq> [] \<longrightarrow> t \<noteq> [])"
  proof (cases "toolName = ''file_manager''")
    case False
    then show ?thesis using h b
      by (simp add: ToolActionLabel_def getActionMessage_def render_def
          editor_message_text_nonempty)
  next
    case True
    then have "string_or_absent (js_or old_path path)"
      using h by (simp add: js_or_def)
    then have a: "split_pop (js_or old_path path) = Inr (final_segment (js_or old_path path))"
      by (rule split_pop_string_or_absent)
    have c: "command = JStr ''rename'' \<Longrightarrow> split_pop new_path = Inr (final_segment new_path)"
      using h True by (simp add: split_pop_string_or_absent)
    show ?thesis using True h a b c
      by (simp add: ToolActionLabel_def getActionMessage_def manager_message_def render_def)
  qed
qed

theorem label_degrades_gracefully_witness:
  "ToolActionLabel (\<lambda>s. None) ''str_replace_editor'' (JStr ''invalid json{'') =
     ToolActionLabel (\<lambda>s. None) ''str_replace_editor'' (JObj [])
   \<and> label_text (ToolActionLabel (\<lambda>s. None) ''str_replace_editor'' (JStr ''invalid json{'')) =
     Some ''Editing file''
   \<and> parse_args (\<lambda>s. None) (JStr ''invalid json{'') = JObj []
   \<and> get_prop (JObj []) ''path'' = Inr JUndefined
   \<and> string_or_absent JUndefined
   \<and> (\<exists>k c t. ToolActionLabel (\<lambda>s. None) ''str_replace_editor'' (JStr ''invalid json{'') =
           Inr (Div ''inline-flex items-center gap-2'' [Svg k c, Span ''text-neutral-700'' t])
         \<and> t \<noteq> [])
   \<and> (\<exists>k c t. ToolActionLabel (\<lambda>s. None) ''file_manager''
           (JObj [(''command'', JStr ''delete''), (''path'', JStr ''/a.js''),
                  (''old_path'', JNum 0), (''new_path'', JNum 3)]) =
           Inr (Div ''inline-flex items-center gap-2'' [Svg k c, Span ''text-neutral-700'' t])
         \<and> t \<noteq> [])"
  using label_degrades_gracefully [of "\<lambda>s. None" "''invalid json{''" "''str_replace_editor''"
      "JStr ''invalid json{''" JUndefined JUndefined JUndefined JUndefined]
    label_degrades_gracefully [of "\<lambda>s. None" "''invalid json{''" "''file_manager''"
      "JObj [(''command'', JStr ''delete''), (''path'', JStr ''/a.js''),
                  (''old_path'', JNum 0), (''new_path'', JNum 3)]"
      "JStr ''/a.js''" "JStr ''delete''" "JNum 0" "JNum 3"]
  by (simp add: ToolActionLabel_def getActionMessage_def editor_message_def render_def)

section \<open>Properties of the virtual project\<close>

subsection \<open>Path normalizer\<close>

lemma collapse_nonsep: "x \<noteq> CHR ''/'' \<Longrightarrow> collapse_seps (x # xs) = x # collapse_seps xs"
  by (cases xs) auto

lemma collapse_seps_nonempty: "s \<noteq> [] \<Longrightarrow> collapse_seps s \<noteq> []"
  by (induction s rule: collapse_seps.induct) auto

lemma collapse_sep_char:
  "collapse_seps (CHR ''/'' # s) =
     concat (map (\<lambda>w. CHR ''/'' # w) (segments s)) @ (if s = [] \<or> last s = CHR ''/'' then ''/'' else [])"
proof (induction s)
  case Nil
  show ?case by (simp add: segments_def)
next
  case (Cons x xs)
  show ?case
  proof (cases "x = CHR ''/''")
    case True
    then show ?thesis using Cons by (auto simp: segments_def)
  next
    case False
    show ?thesis
    proof (cases xs)
      case Nil
      then show ?thesis using False by (simp add: segments_def)
    next
      case (Cons y r)
      then show ?thesis using False Cons.IH
        by (auto simp: segments_def collapse_nonsep split: list.splits if_splits)
    qed
  qed
qed

lemma split_js_sep_free: "w \<in> set (split_js c s) \<Longrightarrow> c \<notin> set w"
  by (induction s arbitrary: w) (auto split: if_splits list.splits)

lemma good_segments_segments: "good_segments (segments s)"
  by (auto simp: good_segments_def segments_def dest: split_js_sep_free)

lemma last_concat_segments:
  "ws \<noteq> [] \<Longrightarrow> good_segments ws \<Longrightarrow>
     concat (map (\<lambda>w. CHR ''/'' # w) ws) \<noteq> [] \<and>
     last (concat (map (\<lambda>w. CHR ''/'' # w) ws)) \<noteq> CHR ''/'' \<and>
     1 < length (concat (map (\<lambda>w. CHR ''/'' # w) ws))"
proof (induction ws rule: rev_induct)
  case Nil
  then show ?case by simp
next
  case (snoc w ws)
  then have "w \<noteq> []" "CHR ''/'' \<notin> set w" by (auto simp: good_segments_def)
  then have "last w \<noteq> CHR ''/''" "0 < length w" using last_in_set by fastforce+
  then show ?case using \<open>w \<noteq> []\<close> by simp
qed

lemma normalize_segments:
  assumes "raw \<noteq> []"
  shows "strip_trailing (collapse_seps (prepend_sep raw)) = join_segments (segments raw)"
proof -
  have "\<exists>s. prepend_sep raw = CHR ''/'' # s \<and> segments s = segments raw"
  proof (cases raw)
    case Nil
    then show ?thesis using assms by simp
  next
    case (Cons a r)
    show ?thesis
    proof (cases "a = CHR ''/''")
      case True
      then show ?thesis using Cons by (simp add: segments_def)
    next
      case False
      then show ?thesis using Cons by simp
    qed
  qed
  then obtain s where s: "prepend_sep raw = CHR ''/'' # s" "segments s = segments raw"
    by blast
  let ?g = "concat (map (\<lambda>w. CHR ''/'' # w) (segments s))"
  let ?t = "if s = [] \<or> last s = CHR ''/'' then ''/'' else []"
  have c: "collapse_seps (CHR ''/'' # s) = ?g @ ?t" by (rule collapse_sep_char)
  show ?thesis
  proof (cases "segments s = []")
    case True
    then have "collapse_seps (CHR ''/'' # s) = ?t" using c by simp
    moreover have "collapse_seps (CHR ''/'' # s) \<noteq> []" by (rule collapse_seps_nonempty) simp
    ultimately have "collapse_seps (CHR ''/'' # s) = ''/''" by (auto split: if_splits)
    then show ?thesis using True s by (simp add: strip_trailing_def join_segments_def)
  next
    case False
    from last_concat_segments [OF False good_segments_segments]
    have "?g \<noteq> []" "last ?g \<noteq> CHR ''/''" "1 < length ?g" by auto
    then have "strip_trailing (?g @ ?t) = ?g"
      by (auto simp: strip_trailing_def butlast_append)
    then show ?thesis using False s c by (simp add: join_segments_def)
  qed
qed

lemma split_js_append_sep:
  "c \<notin> set w \<Longrightarrow> split_js c (w @ c # rest) = w # split_js c rest"
  by (induction w) auto

lemma split_js_concat_segments:
  "ws \<noteq> [] \<Longrightarrow> good_segments ws \<Longrightarrow>
     split_js (CHR ''/'') (concat (map (\<lambda>w. CHR ''/'' # w) ws)) = [] # ws"
proof (induction ws)
  case Nil
  then show ?case by simp
next
  case (Cons w ws)
  then have w: "CHR ''/'' \<notin> set w" by (simp add: good_segments_def)
  show ?case
  proof (cases ws)
    case Nil
    then show ?thesis using w by (simp add: split_js_no_sep)
  next
    case (Cons v vs)
    then have "split_js (CHR ''/'') (concat (map (\<lambda>w. CHR ''/'' # w) ws)) = [] # ws"
      using Cons.IH Cons.prems by (simp add: good_segments_def)
    then have "split_js (CHR ''/'') (v @ concat (map (\<lambda>w. CHR ''/'' # w) vs)) = ws"
      using Cons by simp
    then show ?thesis using w Cons by (simp add: split_js_append_sep)
  qed
qed

lemma segments_join_segments: "good_segments ws \<Longrightarrow> segments (join_segments ws) = ws"
proof (cases "ws = []")
  case True
  then show ?thesis by (simp add: join_segments_def segments_def)
next
  case False
  assume g: "good_segments ws"
  then have "filter (\<lambda>w. w \<noteq> []) ws = ws" by (auto simp: good_segments_def)
  then show ?thesis using False g
    by (simp add: join_segments_def segments_def split_js_concat_segments)
qed

lemma has_parent_segment_segments: "has_parent_segment raw \<longleftrightarrow> ''..'' \<in> set (segments raw)"
  by (auto simp: has_parent_segment_def segments_def)

lemma normalize_eq:
  "normalize raw = (if raw = [] \<or> ''..'' \<in> set (segments raw) then Inl PathError
                    else Inr (join_segments (segments raw)))"
  by (simp add: normalize_def normalize_segments has_parent_segment_segments Let_def)

lemma join_segments_nonempty: "join_segments ws \<noteq> []"
  by (cases ws) (simp_all add: join_segments_def)

lemma no_double_sep_segment:
  "CHR ''/'' \<notin> set w \<Longrightarrow> w \<noteq> [] \<Longrightarrow> no_double_sep rest \<Longrightarrow>
     no_double_sep (CHR ''/'' # w @ rest)"
proof (induction w)
  case Nil
  then show ?case by simp
next
  case (Cons x xs)
  show ?case
  proof (cases xs)
    case Nil
    then show ?thesis using Cons.prems by (cases rest) auto
  next
    case (Cons y ys)
    then show ?thesis using Cons.IH Cons.prems by auto
  qed
qed

lemma no_double_sep_join: "good_segments ws \<Longrightarrow> no_double_sep (concat (map (\<lambda>w. CHR ''/'' # w) ws))"
  by (induction ws) (auto simp: good_segments_def no_double_sep_segment)

lemma is_path_join_segments: "good_segments ws \<Longrightarrow> is_path (join_segments ws)"
proof (cases "ws = []")
  case True
  then show ?thesis by (simp add: is_path_def join_segments_def)
next
  case False
  assume g: "good_segments ws"
  from last_concat_segments [OF False g] no_double_sep_join [OF g] False
  show ?thesis by (cases ws) (auto simp: is_path_def join_segments_def)
qed

text \<open>
  Claim C8. The normalizer is idempotent: normalizing the result of \<open>normalize p\<close> gives
  the result of \<open>normalize p\<close> (an error stays the error); in particular, whenever
  \<open>normalize p\<close> succeeds with the path \<open>q\<close>, normalizing \<open>q\<close> succeeds with
  \<open>q\<close> itself, and \<open>q\<close> satisfies the invariant of a Path. (\<open>normalize\<close> is a
  function of its argument alone, its five rules applied in the order of section 4.1.)
\<close>

theorem normalize_idempotent:
  "(case normalize p of Inl e \<Rightarrow> Inl e | Inr q \<Rightarrow> normalize q) = normalize p
   \<and> (\<forall>q. normalize p = Inr q \<longrightarrow> normalize q = Inr q \<and> is_path q)"
proof -
  have *: "normalize q = Inr q \<and> is_path q" if "normalize p = Inr q" for q
  proof -
    from that have q: "q = join_segments (segments p)" and np: "''..'' \<notin> set (segments p)"
      by (auto simp: normalize_eq split: if_splits)
    have "segments q = segments p"
      unfolding q by (rule segments_join_segments [OF good_segments_segments])
    then have "normalize q = Inr q"
      using q np by (simp add: normalize_eq join_segments_nonempty)
    moreover have "is_path q"
      unfolding q by (rule is_path_join_segments [OF good_segments_segments])
    ultimately show ?thesis by simp
  qed
  then show ?thesis by (cases "normalize p") auto
qed

theorem normalize_idempotent_witness:
  "normalize ''a//b/c/'' = Inr ''/a/b/c'' \<and> normalize ''/a/b/c'' = Inr ''/a/b/c''
   \<and> is_path ''/a/b/c''"
proof -
  have n: "normalize ''a//b/c/'' = Inr ''/a/b/c''"
    by (simp add: normalize_def strip_trailing_def has_parent_segment_def)
  from normalize_idempotent [of "''a//b/c/''"] n show ?thesis by simp
qed

subsection \<open>Virtual file store\<close>

lemma map_of_make_dir:
  "map_of (make_dir d s) x = (if map_of s x = None \<and> x = d then Some Directory else map_of s x)"
  by (auto simp: make_dir_def map_add_def split: option.splits)

lemma map_of_make_dirs:
  "map_of (make_dirs ds s) x =
     (if map_of s x = None \<and> x \<in> set ds then Some Directory else map_of s x)"
  unfolding make_dirs_def
proof (induction ds arbitrary: s)
  case Nil
  show ?case by simp
next
  case (Cons d ds)
  show ?case by (simp add: Cons.IH map_of_make_dir)
qed

lemma map_of_put_node:
  "map_of (put_node p n s) x = (if x = p then Some n else map_of s x)"
proof (cases "map_of s p = None")
  case True
  then show ?thesis by (auto simp: put_node_def map_add_def split: option.splits)
next
  case False
  have "map_of (map (\<lambda>(q, m). if q = p then (q, n) else (q, m)) s) x =
          (if x = p then (if map_of s p = None then None else Some n) else map_of s x)"
    by (induction s) auto
  moreover from False obtain y where "map_of s p = Some y" by auto
  ultimately show ?thesis by (simp add: put_node_def)
qed

lemma distinct_make_dir: "distinct (map fst s) \<Longrightarrow> distinct (map fst (make_dir d s))"
  by (auto simp: make_dir_def map_of_eq_None_iff)

lemma distinct_make_dirs: "distinct (map fst s) \<Longrightarrow> distinct (map fst (make_dirs ds s))"
  unfolding make_dirs_def
  by (induction ds arbitrary: s) (simp_all add: distinct_make_dir)

lemma keys_put_node:
  "map fst (put_node p n s) = (if map_of s p = None then map fst s @ [p] else map fst s)"
proof -
  have "map fst (map (\<lambda>(q, m). if q = p then (q, n) else (q, m)) s) = map fst s"
    by (induction s) auto
  then show ?thesis by (simp add: put_node_def)
qed

lemma distinct_put_node: "distinct (map fst s) \<Longrightarrow> distinct (map fst (put_node p n s))"
  by (simp add: keys_put_node map_of_eq_None_iff)

lemma prefixes_butlast: "prefixes xs = butlast (prefixes xs) @ [xs]"
  using append_butlast_last_id [of "prefixes xs"] by simp

lemma in_butlast_prefixes:
  "pre \<in> set (butlast (prefixes xs)) \<longleftrightarrow> strict_prefix pre xs"
proof -
  have d: "distinct (butlast (prefixes xs) @ [xs])"
    using distinct_prefixes [of xs] prefixes_butlast [of xs] by simp
  have s: "set (prefixes xs) = set (butlast (prefixes xs)) \<union> {xs}"
  proof -
    have "set (prefixes xs) = set (butlast (prefixes xs) @ [xs])"
      using prefixes_butlast [of xs] by simp
    then show ?thesis by simp
  qed
  show ?thesis using d s in_set_prefixes [of pre xs] by (auto simp: strict_prefix_def)
qed

lemma good_segments_prefix: "good_segments ws \<Longrightarrow> prefix pre ws \<Longrightarrow> good_segments pre"
  by (auto simp: good_segments_def dest: set_mono_prefix)

lemma in_ancestors:
  "a \<in> set (ancestors p) \<longleftrightarrow> (\<exists>pre. strict_prefix pre (segments p) \<and> a = join_segments pre)"
  by (auto simp: ancestors_def in_butlast_prefixes)

lemma segments_ancestor:
  assumes "a \<in> set (ancestors p)"
  shows "strict_prefix (segments a) (segments p)"
proof -
  from assms obtain pre where pre: "strict_prefix pre (segments p)" "a = join_segments pre"
    by (auto simp: in_ancestors)
  then have "good_segments pre"
    using good_segments_prefix [OF good_segments_segments] by (auto simp: strict_prefix_def)
  then show ?thesis using pre by (simp add: segments_join_segments)
qed

lemma not_own_ancestor: "p \<notin> set (ancestors p)"
  using segments_ancestor [of p p] by auto

lemma ancestors_trans:
  assumes "a \<in> set (ancestors p)" and "b \<in> set (ancestors a)"
  shows "b \<in> set (ancestors p)"
proof -
  from assms(2) obtain pre where pre: "strict_prefix pre (segments a)" "b = join_segments pre"
    by (auto simp: in_ancestors)
  moreover have "strict_prefix (segments a) (segments p)" using assms(1) by (rule segments_ancestor)
  ultimately have "strict_prefix pre (segments p)" by (meson prefix_order.less_trans)
  then show ?thesis using pre by (auto simp: in_ancestors)
qed

lemma normalize_Inr_segments:
  "normalize raw = Inr p \<Longrightarrow> p = join_segments (segments raw) \<and> segments p = segments raw"
  by (auto simp: normalize_eq segments_join_segments good_segments_segments split: if_splits)

lemma kind_at_simps:
  "kind_at s p = Some FileKind \<longleftrightarrow> (\<exists>c. map_of s p = Some (File c))"
  "kind_at s p = Some DirectoryKind \<longleftrightarrow> map_of s p = Some Directory"
  "kind_at s p = None \<longleftrightarrow> map_of s p = None"
  by (auto simp: kind_at_def split: option.splits node.splits)

lemma write_file_ancestors:
  assumes "write_file s raw content = Inr s'" and "normalize raw = Inr p"
    and "a \<in> set (ancestors p)"
  shows "map_of s' a = Some Directory"
proof -
  from assms(1,2) have nf: "\<not> list_ex (\<lambda>a. kind_at s a = Some FileKind) (ancestors p)"
    and s': "s' = put_node p (File content) (make_dirs (ancestors p) s)"
    by (auto simp: write_file_def split: if_splits)
  from nf assms(3) have "kind_at s a \<noteq> Some FileKind" by (auto simp: list_ex_iff)
  then have "map_of s a = None \<or> map_of s a = Some Directory"
    by (cases "map_of s a") (auto simp: kind_at_def split: node.splits)
  then have "map_of (make_dirs (ancestors p) s) a = Some Directory"
    using assms(3) by (auto simp: map_of_make_dirs)
  moreover have "a \<noteq> p" using assms(3) not_own_ancestor by auto
  ultimately show ?thesis by (simp add: s' map_of_put_node)
qed

text \<open>
  Claim C10. Whenever \<open>write(p, c)\<close> succeeds (the path is well-formed and does not
  conflict), a following \<open>read(p)\<close> returns \<open>c\<close>, and every ancestor of the
  normalized path is a directory of the resulting store.
\<close>

theorem write_then_read:
  assumes "write_file s p c = Inr s'"
  shows "read_file s' p = Inr c
         \<and> (\<forall>q. normalize p = Inr q \<longrightarrow>
               (\<forall>a \<in> set (ancestors q). kind_at s' a = Some DirectoryKind))"
proof -
  from assms obtain q where q: "normalize p = Inr q"
    by (cases "normalize p") (auto simp: write_file_def)
  with assms have "s' = put_node q (File c) (make_dirs (ancestors q) s)"
    by (auto simp: write_file_def split: if_splits)
  then have "content_at s' q = Some c" by (simp add: content_at_def map_of_put_node)
  then have "read_file s' p = Inr c" using q by (simp add: read_file_def)
  moreover have "\<forall>a \<in> set (ancestors q). kind_at s' a = Some DirectoryKind"
    using write_file_ancestors [OF assms q] by (simp add: kind_at_simps)
  ultimately show ?thesis using q by simp
qed

theorem write_then_read_witness:
  "write_file empty_store ''a//b/c.txt'' ''x'' =
     Inr [(''/'', Directory), (''/a'', Directory), (''/a/b'', Directory), (''/a/b/c.txt'', File ''x'')]
   \<and> read_file [(''/'', Directory), (''/a'', Directory), (''/a/b'', Directory),
                 (''/a/b/c.txt'', File ''x'')] ''a//b/c.txt'' = Inr ''x''
   \<and> normalize ''a//b/c.txt'' = Inr ''/a/b/c.txt''
   \<and> ancestors ''/a/b/c.txt'' = [''/'', ''/a'', ''/a/b'']"
proof -
  have n: "normalize ''a//b/c.txt'' = Inr ''/a/b/c.txt''"
    by (simp add: normalize_def strip_trailing_def has_parent_segment_def)
  have a: "ancestors ''/a/b/c.txt'' = [''/'', ''/a'', ''/a/b'']"
    by (simp add: ancestors_def segments_def join_segments_def)
  have w: "write_file empty_store ''a//b/c.txt'' ''x'' =
     Inr [(''/'', Directory), (''/a'', Directory), (''/a/b'', Directory), (''/a/b/c.txt'', File ''x'')]"
    by (simp add: write_file_def n a empty_store_def kind_at_def make_dirs_def make_dir_def
        put_node_def)
  from write_then_read [OF w] n a show ?thesis using w by simp
qed

lemma wf_write_file:
  assumes "wf_store s" and "write_file s raw content = Inr s'"
  shows "wf_store s'"
proof -
  from assms(2) obtain p where p: "normalize raw = Inr p"
    by (cases "normalize raw") (auto simp: write_file_def)
  with assms(2) have nd: "kind_at s p \<noteq> Some DirectoryKind"
    and s': "s' = put_node p (File content) (make_dirs (ancestors p) s)"
    by (auto simp: write_file_def split: if_splits)
  let ?m = "make_dirs (ancestors p) s"
  from assms(1) have d: "distinct (map fst s)" and r: "map_of s ''/'' = Some Directory"
    and anc: "\<And>q n a. (q, n) \<in> set s \<Longrightarrow> a \<in> set (ancestors q) \<Longrightarrow> map_of s a = Some Directory"
    by (auto simp: wf_store_def)
  have d': "distinct (map fst s')"
    unfolding s' by (intro distinct_put_node distinct_make_dirs d)
  have pr: "p \<noteq> ''/''" using nd r by (auto simp: kind_at_simps)
  have r': "map_of s' ''/'' = Some Directory"
    using r pr by (simp add: s' map_of_put_node map_of_make_dirs)
  have anc_p: "\<And>a. a \<in> set (ancestors p) \<Longrightarrow> map_of s' a = Some Directory"
    using write_file_ancestors [OF assms(2) p] .
  have "map_of s' a = Some Directory" if qn: "(q, n) \<in> set s'" and a: "a \<in> set (ancestors q)" for q n a
  proof -
    from qn d' have m: "map_of s' q = Some n" by simp
    show ?thesis
    proof (cases "q = p")
      case True
      then show ?thesis using a anc_p by simp
    next
      case False
      then have mq: "map_of ?m q = Some n" using m by (simp add: s' map_of_put_node)
      show ?thesis
      proof (cases "map_of s q = None")
        case True
        then have "q \<in> set (ancestors p)" using mq by (auto simp: map_of_make_dirs split: if_splits)
        then have "a \<in> set (ancestors p)" using a by (rule ancestors_trans)
        then show ?thesis by (rule anc_p)
      next
        case False
        then have "map_of s q = Some n" using mq by (auto simp: map_of_make_dirs)
        then have "(q, n) \<in> set s" by (rule map_of_SomeD)
        then have sa: "map_of s a = Some Directory" using a by (rule anc)
        then have "a \<noteq> p" using nd by (auto simp: kind_at_simps)
        then show ?thesis using sa by (simp add: s' map_of_put_node map_of_make_dirs)
      qed
    qed
  qed
  then show ?thesis using d' r' by (auto simp: wf_store_def)
qed

lemma wf_empty_store: "wf_store empty_store"
  by (simp add: wf_store_def empty_store_def ancestors_def segments_def)

subsection \<open>Import resolver\<close>

lemma lookup_file_is_file: "lookup_file s c = Some q \<Longrightarrow> kind_at s q = Some FileKind"
  by (auto simp: lookup_file_def split: sum.splits if_splits)

lemma first_match_found:
  assumes "c \<in> set cs" and "lookup_file s c = Some q"
  shows "\<exists>q' c'. first_match s cs = Some q' \<and> c' \<in> set cs \<and> lookup_file s c' = Some q'"
  using assms by (induction cs) (auto split: option.splits)

lemma first_match_all_same:
  assumes "\<And>c q'. c \<in> set cs \<Longrightarrow> lookup_file s c = Some q' \<Longrightarrow> q' = q"
    and "\<exists>c \<in> set cs. lookup_file s c = Some q"
  shows "first_match s cs = Some q"
  using assms by (induction cs) (auto split: option.splits)

lemma write_file_is_file:
  assumes "write_file s0 raw source = Inr s"
  shows "\<exists>q. normalize raw = Inr q \<and> kind_at s q = Some FileKind \<and> lookup_file s raw = Some q"
proof -
  from assms obtain q where q: "normalize raw = Inr q"
    by (cases "normalize raw") (auto simp: write_file_def)
  with assms have "s = put_node q (File source) (make_dirs (ancestors q) s0)"
    by (auto simp: write_file_def split: if_splits)
  then have "kind_at s q = Some FileKind" by (simp add: kind_at_def map_of_put_node)
  then show ?thesis using q by (simp add: lookup_file_def)
qed

lemma classify_aliased:
  "\<not> list_ex (\<lambda>x. suffix x (alias @ rest)) style_exts \<Longrightarrow>
     classify alias style_exts is_relative (alias @ rest) = Aliased"
  by (simp add: classify_def)

text \<open>
  Claim C4. For every configured alias prefix, \<^verbatim>\<open>@/\<close> in particular, an aliased
  specifier (the prefix followed by \<open>rest\<close>) denotes the store path made of the root
  and \<open>rest\<close>, as \<^verbatim>\<open>@/components/Calculator\<close> denotes \<^verbatim>\<open>/components/Calculator\<close>:
  whenever a module has been written to the store at that path, literally or with a
  recognized source extension appended, and the specifier is not a stylesheet specifier,
  it resolves to the handle of a File of the store, never to a placeholder; and when every
  matching candidate is that module, it resolves to the handle of that very module.
\<close>

theorem aliased_specifier_resolves:
  assumes ext: "e = [] \<or> e \<in> set exts"
    and written: "write_file s0 (CHR ''/'' # rest @ e) source = Inr s"
    and nostyle: "\<not> list_ex (\<lambda>x. suffix x (alias @ rest)) style_exts"
  shows "(\<exists>q. resolve alias style_exts is_relative exts s (alias @ rest) = Some (ModuleHandle q)
              \<and> kind_at s q = Some FileKind)
         \<and> (\<forall>q0. normalize (CHR ''/'' # rest @ e) = Inr q0 \<longrightarrow>
               (\<forall>c \<in> set (candidates exts (CHR ''/'' # rest)).
                  \<forall>q'. lookup_file s c = Some q' \<longrightarrow> q' = q0) \<longrightarrow>
               resolve alias style_exts is_relative exts s (alias @ rest) =
                 Some (ModuleHandle q0))"
proof -
  let ?cs = "candidates exts (CHR ''/'' # rest)"
  from write_file_is_file [OF written] obtain q0 where
    q0: "normalize (CHR ''/'' # rest @ e) = Inr q0"
    and l0: "lookup_file s (CHR ''/'' # rest @ e) = Some q0" by blast
  have mem: "CHR ''/'' # rest @ e \<in> set ?cs"
    using ext by (auto simp: candidates_def)
  have r: "resolve alias style_exts is_relative exts s (alias @ rest) =
             Some (resolve_local s exts (CHR ''/'' # rest))"
    by (simp add: resolve_def classify_aliased [OF nostyle] rewrite_alias_def)
  from first_match_found [OF mem l0] obtain q c where
    fm: "first_match s ?cs = Some q" and "c \<in> set ?cs" "lookup_file s c = Some q" by blast
  then have "kind_at s q = Some FileKind" by (auto dest: lookup_file_is_file)
  then have first: "\<exists>q. resolve alias style_exts is_relative exts s (alias @ rest) =
      Some (ModuleHandle q) \<and> kind_at s q = Some FileKind"
    using r fm by (simp add: resolve_local_def)
  have second: "resolve alias style_exts is_relative exts s (alias @ rest) = Some (ModuleHandle q1)"
    if n: "normalize (CHR ''/'' # rest @ e) = Inr q1"
      and u: "\<forall>c \<in> set ?cs. \<forall>q'. lookup_file s c = Some q' \<longrightarrow> q' = q1" for q1
  proof -
    from n q0 have "q1 = q0" by simp
    then have "first_match s ?cs = Some q1"
      using u mem l0 by (intro first_match_all_same) auto
    then show ?thesis using r by (simp add: resolve_local_def)
  qed
  from first second show ?thesis by blast
qed

theorem aliased_specifier_resolves_witness:
  "write_file [(''/'', Directory), (''/App.jsx'', File ''import Button from @/components/Button'')]
       ''/components/Button.jsx'' ''export default Button'' =
     Inr [(''/'', Directory), (''/App.jsx'', File ''import Button from @/components/Button''),
          (''/components'', Directory), (''/components/Button.jsx'', File ''export default Button'')]
   \<and> ''.jsx'' \<in> set [''.js'', ''.jsx'']
   \<and> \<not> list_ex (\<lambda>x. suffix x ''@/components/Button'') [''.css'']
   \<and> resolve ''@/'' [''.css''] (\<lambda>s. False) [''.js'', ''.jsx'']
        [(''/'', Directory), (''/App.jsx'', File ''import Button from @/components/Button''),
         (''/components'', Directory), (''/components/Button.jsx'', File ''export default Button'')]
        ''@/components/Button'' = Some (ModuleHandle ''/components/Button.jsx'')"
proof -
  have n: "normalize ''/components/Button.jsx'' = Inr ''/components/Button.jsx''"
    "normalize ''/components/Button.js'' = Inr ''/components/Button.js''"
    "normalize ''/components/Button'' = Inr ''/components/Button''"
    "normalize ''/components/Button/index.js'' = Inr ''/components/Button/index.js''"
    "normalize ''/components/Button/index.jsx'' = Inr ''/components/Button/index.jsx''"
    by (simp_all add: normalize_def strip_trailing_def has_parent_segment_def)
  have a: "ancestors ''/components/Button.jsx'' = [''/'', ''/components'']"
    by (simp add: ancestors_def segments_def join_segments_def)
  have w: "write_file [(''/'', Directory), (''/App.jsx'', File ''import Button from @/components/Button'')]
       (CHR ''/'' # ''components/Button'' @ ''.jsx'') ''export default Button'' =
     Inr [(''/'', Directory), (''/App.jsx'', File ''import Button from @/components/Button''),
          (''/components'', Directory), (''/components/Button.jsx'', File ''export default Button'')]"
    by (simp add: write_file_def n a kind_at_def make_dirs_def make_dir_def put_node_def)
  have j: "''.jsx'' = [] \<or> ''.jsx'' \<in> set [''.js'', ''.jsx'']" by simp
  have st: "\<not> list_ex (\<lambda>x. suffix x (''@/'' @ ''components/Button'')) [''.css'']"
    by (simp add: suffix_to_prefix)
  from aliased_specifier_resolves [OF j w st, of "\<lambda>s. False"] w st
  show ?thesis by (simp add: n candidates_def lookup_file_def kind_at_def)
qed

end
